theory Spec2Isabelle
  imports Main "HOL-Library.Sublist"
begin

section \<open>Machine event sockets of the podman machine command\<close>

text \<open>
  The development follows the second Go file of the repository (package machine): the
  package-level variables \<open>sockPaths\<close>, \<open>openEventSock\<close> and \<open>sockets\<close>, the hooks
  \<open>initMachineEvents\<close> and \<open>closeMachineEvents\<close>, the resolver \<open>resolveEventSock\<close> and the
  publisher \<open>newMachineEvent\<close>. Package state is passed explicitly; everything the code asks
  of the operating system or of a library is a field of an environment record.
\<close>

subsection \<open>Errors, file modes and directory entries\<close>

datatype errno = ENOENT | EACCES | ENOTDIR | EIO | ECONNREFUSED | EPIPE | EBADF

text \<open>A Go error value: a path error carrying an errno, or any other error with its text.\<close>

datatype error = PathError string errno | ErrorString string

text \<open>\<open>errors.Is(err, os.ErrNotExist)\<close>.\<close>

fun isErrNotExist :: "error \<Rightarrow> bool" where
  "isErrNotExist (PathError p ENOENT) = True"
| "isErrNotExist e = False"

text \<open>The type bits of a file mode, as \<open>DirEntry.Type()\<close> returns them; \<open>ModeRegular\<close> is 0.\<close>

datatype file_mode =
  ModeRegular | ModeDir | ModeSymlink | ModeNamedPipe | ModeSocket | ModeDevice
  | ModeCharDevice | ModeIrregular

record dir_entry =
  Name :: string
  IsDir :: bool
  FileType :: file_mode

text \<open>
  One call of the walk function by \<open>filepath.WalkDir\<close>: either an entry (error nil, entry
  present), or a failure reported for a path (error not nil; the entry is not looked at).
\<close>

datatype visit = Entry string dir_entry | Failure string error

subsection \<open>Observable effects\<close>

type_synonym conn = nat
type_synonym payload = string
type_synonym time = nat

datatype level = DebugLevel | WarnLevel | ErrorLevel

text \<open>
  What the process does to the outside, in order: scanning a directory, dialing a path (with
  the outcome), writing to and closing a connection (with the outcome), and a log line (its
  level and format string).
\<close>

datatype effect =
  E_Walk string
  | E_Dial string "error + conn"
  | E_Write conn payload "error option"
  | E_Close conn "error option"
  | E_Log level string

fun dial_of :: "effect \<Rightarrow> string list" where
  "dial_of (E_Dial p r) = [p]"
| "dial_of e = []"

fun dialed_conn_of :: "effect \<Rightarrow> conn list" where
  "dialed_conn_of (E_Dial p (Inr c)) = [c]"
| "dialed_conn_of e = []"

fun write_of :: "effect \<Rightarrow> (conn \<times> payload) list" where
  "write_of (E_Write c p r) = [(c, p)]"
| "write_of e = []"

fun failed_write_of :: "effect \<Rightarrow> conn list" where
  "failed_write_of (E_Write c p (Some err)) = [c]"
| "failed_write_of e = []"

fun close_of :: "effect \<Rightarrow> conn list" where
  "close_of (E_Close c r) = [c]"
| "close_of e = []"

fun walk_of :: "effect \<Rightarrow> string list" where
  "walk_of (E_Walk root) = [root]"
| "walk_of e = []"

fun error_log_of :: "effect \<Rightarrow> string list" where
  "error_log_of (E_Log ErrorLevel fmt) = [fmt]"
| "error_log_of e = []"

text \<open>The paths dialed, in order, whatever the outcome.\<close>

definition dials :: "effect list \<Rightarrow> string list" where
  "dials t = concat (map dial_of t)"

text \<open>The connections that dialing opened, in order.\<close>

definition dialed_conns :: "effect list \<Rightarrow> conn list" where
  "dialed_conns t = concat (map dialed_conn_of t)"

text \<open>The write attempts, in order, whatever the outcome.\<close>

definition writes :: "effect list \<Rightarrow> (conn \<times> payload) list" where
  "writes t = concat (map write_of t)"

definition failed_writes :: "effect list \<Rightarrow> conn list" where
  "failed_writes t = concat (map failed_write_of t)"

definition closes :: "effect list \<Rightarrow> conn list" where
  "closes t = concat (map close_of t)"

definition walks :: "effect list \<Rightarrow> string list" where
  "walks t = concat (map walk_of t)"

definition error_logs :: "effect list \<Rightarrow> string list" where
  "error_logs t = concat (map error_log_of t)"

subsection \<open>Events\<close>

text \<open>
  \<open>events.Event\<close> is declared outside the file; the publisher assigns its fields \<open>Status\<close>,
  \<open>Time\<close> and \<open>Type\<close>. The other fields of an event are the extension of the record.
\<close>

record event =
  Status :: string
  Time :: time
  Type :: string

text \<open>
  Modelled from the spec: the constant \<open>events.Machine\<close>, declared outside the file; the
  wire format names the machine-event category by the string machine.
\<close>

definition Machine :: string where
  "Machine = ''machine''"

subsection \<open>The environment\<close>

text \<open>
  \<open>lookupEnv\<close> is \<open>os.LookupEnv\<close>, \<open>getRuntimeDir\<close> is \<open>util.GetRuntimeDir\<close>,
  \<open>filepathJoin\<close> is \<open>filepath.Join\<close>. \<open>walkVisits root\<close> is the sequence of calls that
  \<open>filepath.WalkDir\<close> makes on \<open>root\<close> for a walk function that stops it only by returning
  an error. Dialing, writing, closing and the clock answer according to the effects so far, so
  that two calls with the same arguments may differ. \<open>jsonMarshal\<close> is \<open>json.Marshal\<close>.
\<close>

record 'a env =
  lookupEnv :: "string \<Rightarrow> string option"
  getRuntimeDir :: "error + string"
  filepathJoin :: "string \<Rightarrow> string \<Rightarrow> string"
  walkVisits :: "string \<Rightarrow> visit list"
  dialContext :: "effect list \<Rightarrow> string \<Rightarrow> error + conn"
  connWrite :: "effect list \<Rightarrow> conn \<Rightarrow> payload \<Rightarrow> error option"
  connClose :: "effect list \<Rightarrow> conn \<Rightarrow> error option"
  timeNow :: "effect list \<Rightarrow> time"
  jsonMarshal :: "'a event_scheme \<Rightarrow> error + payload"

subsection \<open>Package state\<close>

text \<open>
  The three package-level variables, and the effects so far. \<open>openEventSock\<close> is the
  \<open>sync.Once\<close>: True when its function has run.
\<close>

record state =
  sockPaths :: "string list"
  openEventSock :: bool
  sockets :: "conn list"
  trace :: "effect list"

text \<open>The state at process start: Go's zero values.\<close>

definition init_state :: state where
  "init_state = \<lparr>sockPaths = [], openEventSock = False, sockets = [], trace = []\<rparr>"

subsection \<open>The name pattern\<close>

text \<open>
  \<open>regexp.MustCompile(`machine_events.*\.sock`)\<close> with \<open>MatchString\<close>: an unanchored search
  for \<open>machine_events\<close>, then any characters other than newline, then \<open>.sock\<close>.
  \<open>match_rest\<close> matches \<open>.*\.sock\<close> at the head of its argument.
\<close>

definition newline :: char where
  "newline = CHR 0x0A"

fun match_rest :: "string \<Rightarrow> bool" where
  "match_rest [] = False"
| "match_rest (c # cs) = (prefix ''.sock'' (c # cs) \<or> (c \<noteq> newline \<and> match_rest cs))"

fun MatchString :: "string \<Rightarrow> bool" where
  "MatchString [] = False"
| "MatchString (c # cs) =
     ((prefix ''machine_events'' (c # cs) \<and> match_rest (drop 14 (c # cs))) \<or> MatchString cs)"

subsection \<open>resolveEventSock\<close>

text \<open>
  The walk function: the local \<open>sockPaths\<close> it appends to and the effects are passed
  through. The cases are those of the switch, in its order.
\<close>

fun fn :: "visit \<Rightarrow> string list \<times> effect list \<Rightarrow> error option \<times> string list \<times> effect list" where
  "fn (Failure path err) (sp, t) = (Some err, sp, t)"
| "fn (Entry path info) (sp, t) =
     (if IsDir info then (None, sp, t)
      else if FileType info \<noteq> ModeSocket then (None, sp, t)
      else if \<not> MatchString (Name info) then (None, sp, t)
      else (None, sp @ [path],
            t @ [E_Log DebugLevel ''Machine events will be published on: %q'']))"

text \<open>\<open>filepath.WalkDir\<close> on the visits of the root: it stops at the first error of \<open>fn\<close>.\<close>

fun WalkDir :: "visit list \<Rightarrow> string list \<times> effect list \<Rightarrow> error option \<times> string list \<times> effect list" where
  "WalkDir [] acc = (None, acc)"
| "WalkDir (v # vs) acc =
     (case fn v acc of
        (Some err, acc') \<Rightarrow> (Some err, acc')
      | (None, acc') \<Rightarrow> WalkDir vs acc')"

definition resolveEventSock :: "'a env \<Rightarrow> (error + string list) \<times> effect list" where
  "resolveEventSock env =
     (case lookupEnv env ''PODMAN_MACHINE_EVENTS_SOCK'' of
        Some sock \<Rightarrow> (Inr [sock], [])
      | None \<Rightarrow>
         (case getRuntimeDir env of
            Inl err \<Rightarrow>
              (Inr [],
               [E_Log WarnLevel
                  ''Failed to get runtime dir, machine events will not be published: %s''])
          | Inr xdg \<Rightarrow>
              (let root = filepathJoin env xdg ''podman'' in
               case WalkDir (walkVisits env root) ([], [E_Walk root]) of
                 (Some err, sp, t) \<Rightarrow>
                   (if isErrNotExist err then (Inr [], t) else (Inl err, t))
               | (None, sp, t) \<Rightarrow> (Inr sp, t))))"

subsection \<open>Dialing, writing, closing\<close>

text \<open>
  The loop over paths that dials each one: the pre-hook and the publisher hold the same
  loop, the first over its local list, the second over the package-level one.
\<close>

fun dialEach :: "'a env \<Rightarrow> string list \<Rightarrow> state \<Rightarrow> state" where
  "dialEach env [] s = s"
| "dialEach env (path # rest) s =
     (case dialContext env (trace s) path of
        Inl err \<Rightarrow>
          dialEach env rest
            (s\<lparr>trace := trace s @
                 [E_Dial path (Inl err), E_Log WarnLevel ''Failed to open event socket %q: %v'']\<rparr>)
      | Inr c \<Rightarrow>
          dialEach env rest
            (s\<lparr>sockets := sockets s @ [c],
               trace := trace s @
                 [E_Dial path (Inr c), E_Log DebugLevel ''Machine event socket %q found'']\<rparr>))"

fun writeEach :: "'a env \<Rightarrow> payload \<Rightarrow> conn list \<Rightarrow> state \<Rightarrow> state" where
  "writeEach env p [] s = s"
| "writeEach env p (sock # rest) s =
     (case connWrite env (trace s) sock p of
        Some err \<Rightarrow>
          writeEach env p rest
            (s\<lparr>trace := trace s @
                 [E_Write sock p (Some err), E_Log ErrorLevel ''Unable to write machine event: %q'']\<rparr>)
      | None \<Rightarrow>
          writeEach env p rest (s\<lparr>trace := trace s @ [E_Write sock p None]\<rparr>))"

fun closeEach :: "'a env \<Rightarrow> conn list \<Rightarrow> state \<Rightarrow> state" where
  "closeEach env [] s = s"
| "closeEach env (sock # rest) s =
     closeEach env rest (s\<lparr>trace := trace s @ [E_Close sock (connClose env (trace s) sock)]\<rparr>)"

subsection \<open>The hooks and the publisher\<close>

text \<open>
  The pre-hook. Its \<open>sockPaths\<close> is a new local variable (declared by \<open>:=\<close>): the
  package-level one is not assigned.
\<close>

definition initMachineEvents :: "'a env \<Rightarrow> state \<Rightarrow> error option \<times> state" where
  "initMachineEvents env s =
     (let s0 = s\<lparr>trace := trace s @
                   [E_Log DebugLevel ''Called machine %s.PersistentPreRunE(%s)'']\<rparr>
      in case resolveEventSock env of
           (Inl err, t) \<Rightarrow> (Some err, s0\<lparr>trace := trace s0 @ t\<rparr>)
         | (Inr paths, t) \<Rightarrow>
             (let s1 = s0\<lparr>trace := trace s0 @ t\<rparr>
              in if length paths = 0 then (None, s1)
                 else (None, dialEach env paths s1)))"

text \<open>The stamping of the event, before it is serialized.\<close>

definition stamp :: "string \<Rightarrow> time \<Rightarrow> 'a event_scheme \<Rightarrow> 'a event_scheme" where
  "stamp status now event = event\<lparr>Status := status, Time := now, Type := Machine\<rparr>"

text \<open>The function given to \<open>openEventSock.Do\<close>, and \<open>Do\<close> itself.\<close>

definition openSockets :: "'a env \<Rightarrow> state \<Rightarrow> state" where
  "openSockets env s =
     (if length (sockPaths s) = 0 then s else dialEach env (sockPaths s) s)"

definition onceDo :: "(state \<Rightarrow> state) \<Rightarrow> state \<Rightarrow> state" where
  "onceDo f s = (if openEventSock s then s else (f s)\<lparr>openEventSock := True\<rparr>)"

definition newMachineEvent :: "'a env \<Rightarrow> string \<Rightarrow> 'a event_scheme \<Rightarrow> state \<Rightarrow> state" where
  "newMachineEvent env status event s =
     (let s1 = onceDo (openSockets env) s;
          event' = stamp status (timeNow env (trace s1)) event
      in case jsonMarshal env event' of
           Inl err \<Rightarrow>
             s1\<lparr>trace := trace s1 @ [E_Log ErrorLevel ''Unable to format machine event: %q'']\<rparr>
         | Inr p \<Rightarrow> writeEach env p (sockets s1) s1)"

definition closeMachineEvents :: "'a env \<Rightarrow> state \<Rightarrow> error option \<times> state" where
  "closeMachineEvents env s =
     (let s0 = s\<lparr>trace := trace s @
                   [E_Log DebugLevel ''Called machine %s.PersistentPostRunE(%s)'']\<rparr>
      in (None, closeEach env (sockets s0) s0))"

subsection \<open>Executions\<close>

text \<open>Any sequence of calls of the three entry points, in any order.\<close>

datatype 'a call = PreHook | Publish string "'a event_scheme" | PostHook

fun exec :: "'a env \<Rightarrow> 'a call list \<Rightarrow> state \<Rightarrow> state" where
  "exec env [] s = s"
| "exec env (PreHook # cs) s = exec env cs (snd (initMachineEvents env s))"
| "exec env (Publish status event # cs) s = exec env cs (newMachineEvent env status event s)"
| "exec env (PostHook # cs) s = exec env cs (snd (closeMachineEvents env s))"

text \<open>The publish requests of a command body, in order.\<close>

fun publishAll :: "'a env \<Rightarrow> (string \<times> 'a event_scheme) list \<Rightarrow> state \<Rightarrow> state" where
  "publishAll env [] s = s"
| "publishAll env ((status, event) # rest) s =
     publishAll env rest (newMachineEvent env status event s)"

text \<open>
  Modelled from the spec: the dispatcher of the command library (cobra), which is not in the
  file; \<open>machineCmd\<close> only registers \<open>initMachineEvents\<close> as \<open>PersistentPreRunE\<close> and
  \<open>closeMachineEvents\<close> as \<open>PersistentPostRunE\<close>. As the spec words it: the pre-hook is
  executed before the command body, and its error aborts the command; the post-hook is
  executed after the command body regardless of its outcome. A command body is the publish
  requests it makes and the error it returns, if any.
\<close>

definition runMachineCmd ::
  "'a env \<Rightarrow> (string \<times> 'a event_scheme) list \<Rightarrow> error option \<Rightarrow> state \<Rightarrow> error option \<times> state" where
  "runMachineCmd env body bodyErr s =
     (case initMachineEvents env s of
        (Some err, s1) \<Rightarrow> (Some err, s1)
      | (None, s1) \<Rightarrow>
          (let s2 = publishAll env body s1;
               (postErr, s3) = closeMachineEvents env s2
           in (case bodyErr of Some err \<Rightarrow> Some err | None \<Rightarrow> postErr, s3)))"

subsection \<open>Reading executions\<close>

text \<open>The effects that lead from a state to a later one.\<close>

definition effects_since :: "state \<Rightarrow> state \<Rightarrow> effect list" where
  "effects_since s s' = drop (length (trace s)) (trace s')"

text \<open>The paths of the entries that a walk presents, and the first failure it reports.\<close>

fun entry_paths :: "visit list \<Rightarrow> string list" where
  "entry_paths [] = []"
| "entry_paths (Entry path info # vs) = path # entry_paths vs"
| "entry_paths (Failure path err # vs) = entry_paths vs"

fun first_failure :: "visit list \<Rightarrow> error option" where
  "first_failure [] = None"
| "first_failure (Entry path info # vs) = first_failure vs"
| "first_failure (Failure path err # vs) = Some err"

text \<open>The connections that the pre-hook calls of an execution add to \<open>sockets\<close>.\<close>

fun prehook_conns :: "'a env \<Rightarrow> 'a call list \<Rightarrow> state \<Rightarrow> conn list" where
  "prehook_conns env [] s = []"
| "prehook_conns env (PreHook # cs) s =
     dialed_conns (effects_since s (snd (initMachineEvents env s)))
       @ prehook_conns env cs (snd (initMachineEvents env s))"
| "prehook_conns env (Publish status event # cs) s =
     prehook_conns env cs (newMachineEvent env status event s)"
| "prehook_conns env (PostHook # cs) s = prehook_conns env cs (snd (closeMachineEvents env s))"

subsection \<open>Example environments\<close>

text \<open>
  An environment with the override variable set or not, a runtime directory or the error of
  looking for it, the visits of the walk, the paths where nobody listens and the connections
  that are broken. A connection is numbered by the number of effects before its dial.
\<close>

definition example_env ::
  "string option \<Rightarrow> error + string \<Rightarrow> visit list \<Rightarrow> string list \<Rightarrow> conn list \<Rightarrow> unit env" where
  "example_env override xdg visits dead broken =
     \<lparr>lookupEnv = (\<lambda>k. if k = ''PODMAN_MACHINE_EVENTS_SOCK'' then override else None),
      getRuntimeDir = xdg,
      filepathJoin = (\<lambda>a b. a @ ''/'' @ b),
      walkVisits = (\<lambda>root. visits),
      dialContext =
        (\<lambda>t p. if p \<in> set dead then Inl (PathError p ECONNREFUSED) else Inr (length t)),
      connWrite = (\<lambda>t c p. if c \<in> set broken then Some (PathError ''write'' EPIPE) else None),
      connClose = (\<lambda>t c. if c \<in> set broken then Some (PathError ''close'' EBADF) else None),
      timeNow = length,
      jsonMarshal = (\<lambda>e. Inr (Type e @ '' '' @ Status e))\<rparr>"

definition socket_entry :: "string \<Rightarrow> dir_entry" where
  "socket_entry n = \<lparr>Name = n, IsDir = False, FileType = ModeSocket\<rparr>"

text \<open>
  A runtime directory with two sockets that match the pattern, the second of them by an
  inner part of its name only, and a regular file with a matching name.
\<close>

definition example_visits :: "visit list" where
  "example_visits =
     [Entry ''/run/user/1000/podman'' \<lparr>Name = ''podman'', IsDir = True, FileType = ModeDir\<rparr>,
      Entry ''/run/user/1000/podman/machine_events.1.sock'' (socket_entry ''machine_events.1.sock''),
      Entry ''/run/user/1000/podman/machine_events.sock''
        \<lparr>Name = ''machine_events.sock'', IsDir = False, FileType = ModeRegular\<rparr>,
      Entry ''/run/user/1000/podman/xmachine_events.sockx'' (socket_entry ''xmachine_events.sockx'')]"

text \<open>The override variable names a socket with a listener.\<close>

definition override_env :: "unit env" where
  "override_env = example_env (Some ''/tmp/test.sock'') (Inr ''/run/user/1000'') example_visits [] []"

text \<open>No override; the second socket has no listener, the first connection is broken.\<close>

definition scan_env :: "unit env" where
  "scan_env =
     example_env None (Inr ''/run/user/1000'') example_visits
       [''/run/user/1000/podman/xmachine_events.sockx''] [4]"

text \<open>No override; both sockets have a listener, the first connection is broken.\<close>

definition flaky_env :: "unit env" where
  "flaky_env = example_env None (Inr ''/run/user/1000'') example_visits [] [4]"

text \<open>No override; the subdirectory does not exist.\<close>

definition missing_env :: "unit env" where
  "missing_env =
     example_env None (Inr ''/run/user/1000'')
       [Failure ''/run/user/1000/podman'' (PathError ''/run/user/1000/podman'' ENOENT)] [] []"

text \<open>No override; the subdirectory cannot be read.\<close>

definition denied_env :: "unit env" where
  "denied_env =
     example_env None (Inr ''/run/user/1000'')
       [Entry ''/run/user/1000/podman'' \<lparr>Name = ''podman'', IsDir = True, FileType = ModeDir\<rparr>,
        Failure ''/run/user/1000/podman'' (PathError ''/run/user/1000/podman'' EACCES)] [] []"

text \<open>
  No override; the subdirectory exists and holds a socket with a listener, and a directory
  in it is removed after it was listed and before it is read.
\<close>

definition race_visits :: "visit list" where
  "race_visits =
     [Entry ''/run/user/1000/podman'' \<lparr>Name = ''podman'', IsDir = True, FileType = ModeDir\<rparr>,
      Entry ''/run/user/1000/podman/machine_events.1.sock'' (socket_entry ''machine_events.1.sock''),
      Entry ''/run/user/1000/podman/gone'' \<lparr>Name = ''gone'', IsDir = True, FileType = ModeDir\<rparr>,
      Failure ''/run/user/1000/podman/gone'' (PathError ''/run/user/1000/podman/gone'' ENOENT)]"

definition race_env :: "unit env" where
  "race_env = example_env None (Inr ''/run/user/1000'') race_visits [] []"

text \<open>No override; the runtime directory cannot be determined.\<close>

definition homeless_env :: "unit env" where
  "homeless_env = example_env None (Inl (ErrorString ''no runtime dir'')) example_visits [] []"

definition example_event :: event where
  "example_event = \<lparr>Status = ''stale'', Time = 0, Type = ''container''\<rparr>"

section \<open>Properties\<close>

subsection \<open>Effects of each operation\<close>

lemma dials_append [simp]: "dials (a @ b) = dials a @ dials b"
  by (simp add: dials_def)
lemma dialed_conns_append [simp]: "dialed_conns (a @ b) = dialed_conns a @ dialed_conns b"
  by (simp add: dialed_conns_def)
lemma writes_append [simp]: "writes (a @ b) = writes a @ writes b"
  by (simp add: writes_def)
lemma failed_writes_append [simp]: "failed_writes (a @ b) = failed_writes a @ failed_writes b"
  by (simp add: failed_writes_def)
lemma closes_append [simp]: "closes (a @ b) = closes a @ closes b"
  by (simp add: closes_def)
lemma walks_append [simp]: "walks (a @ b) = walks a @ walks b"
  by (simp add: walks_def)
lemma error_logs_append [simp]: "error_logs (a @ b) = error_logs a @ error_logs b"
  by (simp add: error_logs_def)

lemma proj_Nil [simp]:
  "dials [] = []" "dialed_conns [] = []" "writes [] = []" "failed_writes [] = []"
  "closes [] = []" "walks [] = []" "error_logs [] = []"
  by (simp_all add: dials_def dialed_conns_def writes_def failed_writes_def closes_def
      walks_def error_logs_def)

lemma proj_Cons [simp]:
  "dials (e # t) = dial_of e @ dials t"
  "dialed_conns (e # t) = dialed_conn_of e @ dialed_conns t"
  "writes (e # t) = write_of e @ writes t"
  "failed_writes (e # t) = failed_write_of e @ failed_writes t"
  "closes (e # t) = close_of e @ closes t"
  "walks (e # t) = walk_of e @ walks t"
  "error_logs (e # t) = error_log_of e @ error_logs t"
  by (simp_all add: dials_def dialed_conns_def writes_def failed_writes_def closes_def
      walks_def error_logs_def)

lemma effects_since_append: "trace s' = trace s @ t \<Longrightarrow> effects_since s s' = t"
  by (simp add: effects_since_def)

lemma dialEach_effects:
  "\<exists>t. trace (dialEach env ps s) = trace s @ t \<and> dials t = ps
     \<and> sockets (dialEach env ps s) = sockets s @ dialed_conns t
     \<and> writes t = [] \<and> closes t = [] \<and> walks t = [] \<and> error_logs t = []
     \<and> sockPaths (dialEach env ps s) = sockPaths s
     \<and> openEventSock (dialEach env ps s) = openEventSock s"
proof (induction ps arbitrary: s)
  case Nil
  show ?case by simp
next
  case (Cons path rest)
  show ?case
  proof (cases "dialContext env (trace s) path")
    case (Inl err)
    let ?s = "s\<lparr>trace := trace s @
                 [E_Dial path (Inl err), E_Log WarnLevel ''Failed to open event socket %q: %v'']\<rparr>"
    from Cons.IH [of ?s] obtain t where
      "trace (dialEach env rest ?s) = trace ?s @ t" "dials t = rest"
      "sockets (dialEach env rest ?s) = sockets ?s @ dialed_conns t"
      "writes t = []" "closes t = []" "walks t = []" "error_logs t = []"
      "sockPaths (dialEach env rest ?s) = sockPaths ?s"
      "openEventSock (dialEach env rest ?s) = openEventSock ?s"
      by blast
    with Inl show ?thesis
      by (intro exI [of _ "[E_Dial path (Inl err), E_Log WarnLevel ''Failed to open event socket %q: %v''] @ t"])
         simp
  next
    case (Inr c)
    let ?s = "s\<lparr>sockets := sockets s @ [c],
               trace := trace s @
                 [E_Dial path (Inr c), E_Log DebugLevel ''Machine event socket %q found'']\<rparr>"
    from Cons.IH [of ?s] obtain t where
      "trace (dialEach env rest ?s) = trace ?s @ t" "dials t = rest"
      "sockets (dialEach env rest ?s) = sockets ?s @ dialed_conns t"
      "writes t = []" "closes t = []" "walks t = []" "error_logs t = []"
      "sockPaths (dialEach env rest ?s) = sockPaths ?s"
      "openEventSock (dialEach env rest ?s) = openEventSock ?s"
      by blast
    with Inr show ?thesis
      by (intro exI [of _ "[E_Dial path (Inr c), E_Log DebugLevel ''Machine event socket %q found''] @ t"])
         simp
  qed
qed

lemma writeEach_effects:
  "\<exists>t. trace (writeEach env p cs s) = trace s @ t \<and> writes t = map (\<lambda>c. (c, p)) cs
     \<and> dials t = [] \<and> dialed_conns t = [] \<and> closes t = [] \<and> walks t = []
     \<and> length (error_logs t) = length (failed_writes t)
     \<and> sockets (writeEach env p cs s) = sockets s
     \<and> sockPaths (writeEach env p cs s) = sockPaths s
     \<and> openEventSock (writeEach env p cs s) = openEventSock s"
proof (induction cs arbitrary: s)
  case Nil
  show ?case by simp
next
  case (Cons sock rest)
  show ?case
  proof (cases "connWrite env (trace s) sock p")
    case None
    let ?s = "s\<lparr>trace := trace s @ [E_Write sock p None]\<rparr>"
    from Cons.IH [of ?s] obtain t where
      "trace (writeEach env p rest ?s) = trace ?s @ t" "writes t = map (\<lambda>c. (c, p)) rest"
      "dials t = []" "dialed_conns t = []" "closes t = []" "walks t = []"
      "length (error_logs t) = length (failed_writes t)"
      "sockets (writeEach env p rest ?s) = sockets ?s"
      "sockPaths (writeEach env p rest ?s) = sockPaths ?s"
      "openEventSock (writeEach env p rest ?s) = openEventSock ?s"
      by blast
    with None show ?thesis
      by (intro exI [of _ "[E_Write sock p None] @ t"]) simp
  next
    case (Some err)
    let ?s = "s\<lparr>trace := trace s @
                 [E_Write sock p (Some err), E_Log ErrorLevel ''Unable to write machine event: %q'']\<rparr>"
    from Cons.IH [of ?s] obtain t where
      "trace (writeEach env p rest ?s) = trace ?s @ t" "writes t = map (\<lambda>c. (c, p)) rest"
      "dials t = []" "dialed_conns t = []" "closes t = []" "walks t = []"
      "length (error_logs t) = length (failed_writes t)"
      "sockets (writeEach env p rest ?s) = sockets ?s"
      "sockPaths (writeEach env p rest ?s) = sockPaths ?s"
      "openEventSock (writeEach env p rest ?s) = openEventSock ?s"
      by blast
    with Some show ?thesis
      by (intro exI [of _ "[E_Write sock p (Some err), E_Log ErrorLevel ''Unable to write machine event: %q''] @ t"])
         simp
  qed
qed

lemma closeEach_effects:
  "\<exists>t. trace (closeEach env cs s) = trace s @ t \<and> closes t = cs
     \<and> dials t = [] \<and> dialed_conns t = [] \<and> writes t = [] \<and> walks t = [] \<and> error_logs t = []
     \<and> sockets (closeEach env cs s) = sockets s
     \<and> sockPaths (closeEach env cs s) = sockPaths s
     \<and> openEventSock (closeEach env cs s) = openEventSock s"
proof (induction cs arbitrary: s)
  case Nil
  show ?case by simp
next
  case (Cons sock rest)
  let ?s = "s\<lparr>trace := trace s @ [E_Close sock (connClose env (trace s) sock)]\<rparr>"
  from Cons.IH [of ?s] obtain t where
    "trace (closeEach env rest ?s) = trace ?s @ t" "closes t = rest"
    "dials t = []" "dialed_conns t = []" "writes t = []" "walks t = []" "error_logs t = []"
    "sockets (closeEach env rest ?s) = sockets ?s"
    "sockPaths (closeEach env rest ?s) = sockPaths ?s"
    "openEventSock (closeEach env rest ?s) = openEventSock ?s"
    by blast
  then show ?case
    by (intro exI [of _ "[E_Close sock (connClose env (trace s) sock)] @ t"]) simp
qed

lemma match_rest_iff:
  "match_rest s \<longleftrightarrow> (\<exists>m b. s = m @ ''.sock'' @ b \<and> newline \<notin> set m)"
proof
  show "match_rest s \<Longrightarrow> \<exists>m b. s = m @ ''.sock'' @ b \<and> newline \<notin> set m"
  proof (induction s)
    case Nil
    then show ?case by simp
  next
    case (Cons c cs)
    show ?case
    proof (cases "prefix ''.sock'' (c # cs)")
      case True
      then obtain b where "c # cs = ''.sock'' @ b" by (auto simp: prefix_def)
      then have "c # cs = [] @ ''.sock'' @ b \<and> newline \<notin> set []" by simp
      then show ?thesis by blast
    next
      case False
      with Cons.prems have c: "c \<noteq> newline" and "match_rest cs"
        unfolding match_rest.simps by blast+
      with Cons.IH obtain m b where "cs = m @ ''.sock'' @ b" "newline \<notin> set m" by blast
      with c have "c # cs = (c # m) @ ''.sock'' @ b \<and> newline \<notin> set (c # m)" by simp
      then show ?thesis by blast
    qed
  qed
next
  assume "\<exists>m b. s = m @ ''.sock'' @ b \<and> newline \<notin> set m"
  then obtain m b where s: "s = m @ ''.sock'' @ b" and m: "newline \<notin> set m" by blast
  from m show "match_rest s" unfolding s
  proof (induction m)
    case Nil
    show ?case by (simp add: prefix_def)
  next
    case (Cons c m)
    then show ?case by auto
  qed
qed

lemma MatchString_iff:
  "MatchString s \<longleftrightarrow>
     (\<exists>a m b. s = a @ ''machine_events'' @ m @ ''.sock'' @ b \<and> newline \<notin> set m)"
proof
  show "MatchString s \<Longrightarrow>
     \<exists>a m b. s = a @ ''machine_events'' @ m @ ''.sock'' @ b \<and> newline \<notin> set m"
  proof (induction s)
    case Nil
    then show ?case by simp
  next
    case (Cons c cs)
    show ?case
    proof (cases "prefix ''machine_events'' (c # cs) \<and> match_rest (drop 14 (c # cs))")
      case True
      then obtain r where r: "c # cs = ''machine_events'' @ r" by (auto simp: prefix_def)
      then have "drop 14 (c # cs) = r" by simp
      with True have "match_rest r" by simp
      then obtain m b where "r = m @ ''.sock'' @ b" "newline \<notin> set m"
        by (auto simp: match_rest_iff)
      with r have "c # cs = [] @ ''machine_events'' @ m @ ''.sock'' @ b \<and> newline \<notin> set m"
        by simp
      then show ?thesis by blast
    next
      case False
      with Cons.prems have "MatchString cs" unfolding MatchString.simps by blast
      with Cons.IH obtain a m b where
        "cs = a @ ''machine_events'' @ m @ ''.sock'' @ b" "newline \<notin> set m" by blast
      then have "c # cs = (c # a) @ ''machine_events'' @ m @ ''.sock'' @ b \<and> newline \<notin> set m"
        by simp
      then show ?thesis by blast
    qed
  qed
next
  assume "\<exists>a m b. s = a @ ''machine_events'' @ m @ ''.sock'' @ b \<and> newline \<notin> set m"
  then obtain a m b where s: "s = a @ ''machine_events'' @ m @ ''.sock'' @ b"
    and m: "newline \<notin> set m" by blast
  from m have rest: "match_rest (m @ ''.sock'' @ b)"
    using match_rest_iff by blast
  show "MatchString s" unfolding s
  proof (induction a)
    case Nil
    have "drop 14 (''machine_events'' @ m @ ''.sock'' @ b) = m @ ''.sock'' @ b" by simp
    with rest show ?case by (simp add: prefix_def)
  next
    case (Cons c a)
    then show ?case by auto
  qed
qed

lemma WalkDir_effects:
  "\<exists>u t'. snd (WalkDir vs (sp, t)) = (sp @ u, t @ t') \<and> set u \<subseteq> set (entry_paths vs)
     \<and> (distinct (entry_paths vs) \<longrightarrow> distinct u)
     \<and> dials t' = [] \<and> dialed_conns t' = [] \<and> writes t' = [] \<and> closes t' = []
     \<and> walks t' = [] \<and> error_logs t' = []"
proof (induction vs arbitrary: sp t)
  case Nil
  show ?case by simp
next
  case (Cons v vs)
  show ?case
  proof (cases v)
    case (Failure path err)
    then show ?thesis by simp
  next
    case (Entry path info)
    show ?thesis
    proof (cases "\<not> IsDir info \<and> FileType info = ModeSocket \<and> MatchString (Name info)")
      case False
      with Entry have "WalkDir (v # vs) (sp, t) = WalkDir vs (sp, t)" by auto
      moreover from Cons.IH [of sp t] obtain u t' where
        "snd (WalkDir vs (sp, t)) = (sp @ u, t @ t')" "set u \<subseteq> set (entry_paths vs)"
        "distinct (entry_paths vs) \<longrightarrow> distinct u"
        "dials t' = []" "dialed_conns t' = []" "writes t' = []" "closes t' = []"
        "walks t' = []" "error_logs t' = []" by blast
      ultimately show ?thesis using Entry
        by (intro exI [of _ u] exI [of _ t']) auto
    next
      case True
      let ?l = "E_Log DebugLevel ''Machine events will be published on: %q''"
      from True Entry have "WalkDir (v # vs) (sp, t) = WalkDir vs (sp @ [path], t @ [?l])"
        by simp
      moreover from Cons.IH [of "sp @ [path]" "t @ [?l]"] obtain u t' where
        "snd (WalkDir vs (sp @ [path], t @ [?l])) = ((sp @ [path]) @ u, (t @ [?l]) @ t')"
        "set u \<subseteq> set (entry_paths vs)"
        "distinct (entry_paths vs) \<longrightarrow> distinct u"
        "dials t' = []" "dialed_conns t' = []" "writes t' = []" "closes t' = []"
        "walks t' = []" "error_logs t' = []" by blast
      ultimately show ?thesis using Entry
        by (intro exI [of _ "path # u"] exI [of _ "?l # t'"]) auto
    qed
  qed
qed

lemma WalkDir_error: "fst (WalkDir vs acc) = first_failure vs"
proof (induction vs arbitrary: acc)
  case Nil
  show ?case by simp
next
  case (Cons v vs)
  obtain sp t where acc: "acc = (sp, t)" by (cases acc)
  show ?case
  proof (cases v)
    case (Failure path err)
    then show ?thesis by (simp add: acc)
  next
    case (Entry path info)
    then show ?thesis using Cons.IH by (simp add: acc)
  qed
qed

lemma failed_writes_Nil: "writes t = [] \<Longrightarrow> failed_writes t = []"
proof (induction t)
  case Nil
  show ?case by simp
next
  case (Cons e t)
  then show ?case by (cases e) auto
qed

lemma resolveEventSock_effects:
  "dials (snd (resolveEventSock env)) = [] \<and> dialed_conns (snd (resolveEventSock env)) = []
     \<and> writes (snd (resolveEventSock env)) = [] \<and> closes (snd (resolveEventSock env)) = []
     \<and> error_logs (snd (resolveEventSock env)) = []
     \<and> length (walks (snd (resolveEventSock env))) \<le> 1"
proof (cases "lookupEnv env ''PODMAN_MACHINE_EVENTS_SOCK''")
  case (Some sock)
  then show ?thesis by (simp add: resolveEventSock_def)
next
  case None
  show ?thesis
  proof (cases "getRuntimeDir env")
    case (Inl err)
    with None show ?thesis by (simp add: resolveEventSock_def)
  next
    case (Inr xdg)
    let ?root = "filepathJoin env xdg ''podman''"
    obtain r sp t where W: "WalkDir (walkVisits env ?root) ([], [E_Walk ?root]) = (r, sp, t)"
      by (cases "WalkDir (walkVisits env ?root) ([], [E_Walk ?root])") auto
    from WalkDir_effects [of "walkVisits env ?root" "[]" "[E_Walk ?root]"] W
    obtain t' where "t = [E_Walk ?root] @ t'" "dials t' = []" "dialed_conns t' = []"
      "writes t' = []" "closes t' = []" "walks t' = []" "error_logs t' = []"
      by auto
    with None Inr W show ?thesis
      by (cases r) (simp_all add: resolveEventSock_def Let_def)
  qed
qed

lemma resolveEventSock_distinct:
  assumes "\<And>root. distinct (entry_paths (walkVisits env root))"
    and "fst (resolveEventSock env) = Inr ps"
  shows "distinct ps"
proof (cases "lookupEnv env ''PODMAN_MACHINE_EVENTS_SOCK''")
  case (Some sock)
  with assms(2) show ?thesis by (auto simp: resolveEventSock_def)
next
  case None
  show ?thesis
  proof (cases "getRuntimeDir env")
    case (Inl err)
    with None assms(2) show ?thesis by (auto simp: resolveEventSock_def)
  next
    case (Inr xdg)
    let ?root = "filepathJoin env xdg ''podman''"
    obtain r sp t where W: "WalkDir (walkVisits env ?root) ([], [E_Walk ?root]) = (r, sp, t)"
      by (cases "WalkDir (walkVisits env ?root) ([], [E_Walk ?root])") auto
    from WalkDir_effects [of "walkVisits env ?root" "[]" "[E_Walk ?root]"] W assms(1) [of ?root]
    have "distinct sp" by auto
    with None Inr W assms(2) show ?thesis
      by (cases r) (auto simp: resolveEventSock_def Let_def split: if_splits)
  qed
qed

lemma initMachineEvents_effects:
  "\<exists>t. trace (snd (initMachineEvents env s)) = trace s @ t
     \<and> dials t = (case fst (resolveEventSock env) of Inl err \<Rightarrow> [] | Inr ps \<Rightarrow> ps)
     \<and> sockets (snd (initMachineEvents env s)) = sockets s @ dialed_conns t
     \<and> writes t = [] \<and> closes t = [] \<and> error_logs t = []
     \<and> walks t = walks (snd (resolveEventSock env))
     \<and> sockPaths (snd (initMachineEvents env s)) = sockPaths s
     \<and> openEventSock (snd (initMachineEvents env s)) = openEventSock s"
proof -
  let ?l = "E_Log DebugLevel ''Called machine %s.PersistentPreRunE(%s)''"
  obtain r t0 where R: "resolveEventSock env = (r, t0)"
    by (cases "resolveEventSock env") auto
  from resolveEventSock_effects [of env] R
  have t0: "dials t0 = []" "dialed_conns t0 = []" "writes t0 = []" "closes t0 = []"
    "error_logs t0 = []" by simp_all
  let ?s1 = "s\<lparr>trace := trace s @ ?l # t0\<rparr>"
  show ?thesis
  proof (cases r)
    case (Inl err)
    with R t0 show ?thesis
      by (intro exI [of _ "?l # t0"]) (simp add: initMachineEvents_def)
  next
    case (Inr ps)
    from dialEach_effects [of env ps ?s1] obtain t where
      t: "trace (dialEach env ps ?s1) = trace ?s1 @ t" "dials t = ps"
      "sockets (dialEach env ps ?s1) = sockets ?s1 @ dialed_conns t"
      "writes t = []" "closes t = []" "walks t = []" "error_logs t = []"
      "sockPaths (dialEach env ps ?s1) = sockPaths ?s1"
      "openEventSock (dialEach env ps ?s1) = openEventSock ?s1"
      by blast
    have "snd (initMachineEvents env s) = dialEach env ps ?s1"
    proof (cases "ps = []")
      case True
      with R Inr show ?thesis by (simp add: initMachineEvents_def)
    next
      case False
      with R Inr show ?thesis by (simp add: initMachineEvents_def Let_def del: dialEach.simps)
    qed
    with t t0 R Inr show ?thesis
      by (intro exI [of _ "?l # t0 @ t"]) simp
  qed
qed

lemma initMachineEvents_result:
  "fst (initMachineEvents env s) =
     (case fst (resolveEventSock env) of Inl err \<Rightarrow> Some err | Inr ps \<Rightarrow> None)"
  by (cases "resolveEventSock env")
     (auto simp: initMachineEvents_def Let_def split: sum.splits)

lemma onceDo_effects:
  "\<exists>t. trace (onceDo (openSockets env) s) = trace s @ t
     \<and> dials t = (if openEventSock s then [] else sockPaths s)
     \<and> sockets (onceDo (openSockets env) s) = sockets s @ dialed_conns t
     \<and> writes t = [] \<and> closes t = [] \<and> walks t = [] \<and> error_logs t = []
     \<and> sockPaths (onceDo (openSockets env) s) = sockPaths s
     \<and> openEventSock (onceDo (openSockets env) s)"
proof (cases "openEventSock s")
  case True
  then show ?thesis by (simp add: onceDo_def)
next
  case False
  from dialEach_effects [of env "sockPaths s" s] obtain t where
    t: "trace (dialEach env (sockPaths s) s) = trace s @ t" "dials t = sockPaths s"
    "sockets (dialEach env (sockPaths s) s) = sockets s @ dialed_conns t"
    "writes t = []" "closes t = []" "walks t = []" "error_logs t = []"
    "sockPaths (dialEach env (sockPaths s) s) = sockPaths s"
    by blast
  have "openSockets env s = dialEach env (sockPaths s) s"
  proof (cases "sockPaths s = []")
    case True
    then show ?thesis by (simp add: openSockets_def)
  next
    case False
    then show ?thesis by (simp add: openSockets_def del: dialEach.simps)
  qed
  with False t show ?thesis
    by (intro exI [of _ t]) (simp add: onceDo_def)
qed

lemma newMachineEvent_effects:
  "\<exists>t. trace (newMachineEvent env status event s) = trace s @ t
     \<and> dials t = (if openEventSock s then [] else sockPaths s)
     \<and> sockets (newMachineEvent env status event s) = sockets s @ dialed_conns t
     \<and> writes t =
         (case jsonMarshal env
                 (stamp status (timeNow env (trace (onceDo (openSockets env) s))) event) of
            Inl err \<Rightarrow> []
          | Inr p \<Rightarrow> map (\<lambda>c. (c, p)) (sockets (newMachineEvent env status event s)))
     \<and> length (error_logs t) =
         (case jsonMarshal env
                 (stamp status (timeNow env (trace (onceDo (openSockets env) s))) event) of
            Inl err \<Rightarrow> 1
          | Inr p \<Rightarrow> length (failed_writes t))
     \<and> closes t = [] \<and> walks t = []
     \<and> sockPaths (newMachineEvent env status event s) = sockPaths s
     \<and> openEventSock (newMachineEvent env status event s)"
proof -
  let ?s1 = "onceDo (openSockets env) s"
  let ?ev = "stamp status (timeNow env (trace ?s1)) event"
  from onceDo_effects [of env s] obtain t1 where
    t1: "trace ?s1 = trace s @ t1" "dials t1 = (if openEventSock s then [] else sockPaths s)"
    "sockets ?s1 = sockets s @ dialed_conns t1"
    "writes t1 = []" "closes t1 = []" "walks t1 = []" "error_logs t1 = []"
    "sockPaths ?s1 = sockPaths s" "openEventSock ?s1"
    by blast
  have fw1: "failed_writes t1 = []"
    using t1(4) by (rule failed_writes_Nil)
  show ?thesis
  proof (cases "jsonMarshal env ?ev")
    case (Inl err)
    with t1 show ?thesis
      by (intro exI [of _ "t1 @ [E_Log ErrorLevel ''Unable to format machine event: %q'']"])
         (simp add: newMachineEvent_def Let_def)
  next
    case (Inr p)
    from writeEach_effects [of env p "sockets ?s1" ?s1] obtain t2 where
      t2: "trace (writeEach env p (sockets ?s1) ?s1) = trace ?s1 @ t2"
      "writes t2 = map (\<lambda>c. (c, p)) (sockets ?s1)"
      "dials t2 = []" "dialed_conns t2 = []" "closes t2 = []" "walks t2 = []"
      "length (error_logs t2) = length (failed_writes t2)"
      "sockets (writeEach env p (sockets ?s1) ?s1) = sockets ?s1"
      "sockPaths (writeEach env p (sockets ?s1) ?s1) = sockPaths ?s1"
      "openEventSock (writeEach env p (sockets ?s1) ?s1) = openEventSock ?s1"
      by blast
    have "newMachineEvent env status event s = writeEach env p (sockets ?s1) ?s1"
      using Inr by (simp add: newMachineEvent_def Let_def)
    with t1 t2 Inr fw1 show ?thesis
      by (intro exI [of _ "t1 @ t2"]) simp
  qed
qed

lemma closeMachineEvents_effects:
  "\<exists>t. trace (snd (closeMachineEvents env s)) = trace s @ t
     \<and> closes t = sockets s \<and> dials t = [] \<and> dialed_conns t = [] \<and> writes t = []
     \<and> walks t = [] \<and> error_logs t = []
     \<and> sockets (snd (closeMachineEvents env s)) = sockets s
     \<and> sockPaths (snd (closeMachineEvents env s)) = sockPaths s
     \<and> openEventSock (snd (closeMachineEvents env s)) = openEventSock s"
proof -
  let ?l = "E_Log DebugLevel ''Called machine %s.PersistentPostRunE(%s)''"
  let ?s0 = "s\<lparr>trace := trace s @ [?l]\<rparr>"
  from closeEach_effects [of env "sockets ?s0" ?s0] obtain t where
    "trace (closeEach env (sockets ?s0) ?s0) = trace ?s0 @ t" "closes t = sockets ?s0"
    "dials t = []" "dialed_conns t = []" "writes t = []" "walks t = []" "error_logs t = []"
    "sockets (closeEach env (sockets ?s0) ?s0) = sockets ?s0"
    "sockPaths (closeEach env (sockets ?s0) ?s0) = sockPaths ?s0"
    "openEventSock (closeEach env (sockets ?s0) ?s0) = openEventSock ?s0"
    by blast
  then show ?thesis
    by (intro exI [of _ "?l # t"]) (simp add: closeMachineEvents_def)
qed

subsection \<open>Sequences of calls\<close>

lemma dialed_conns_Nil: "dials t = [] \<Longrightarrow> dialed_conns t = []"
proof (induction t)
  case Nil
  show ?case by simp
next
  case (Cons e t)
  then show ?case by (cases e) auto
qed

lemma newMachineEvent_no_paths:
  assumes "sockPaths s = []"
  shows "sockets (newMachineEvent env status event s) = sockets s"
    and "sockPaths (newMachineEvent env status event s) = []"
    and "dials (trace (newMachineEvent env status event s)) = dials (trace s)"
    and "walks (trace (newMachineEvent env status event s)) = walks (trace s)"
    and "dials (effects_since s (newMachineEvent env status event s)) = []"
proof -
  from newMachineEvent_effects [of env status event s] obtain t where
    t: "trace (newMachineEvent env status event s) = trace s @ t"
    "dials t = (if openEventSock s then [] else sockPaths s)"
    "sockets (newMachineEvent env status event s) = sockets s @ dialed_conns t"
    "walks t = []" "sockPaths (newMachineEvent env status event s) = sockPaths s"
    by blast
  from t(2) assms have d: "dials t = []" by simp
  then have c: "dialed_conns t = []" by (rule dialed_conns_Nil)
  show "sockets (newMachineEvent env status event s) = sockets s" using t(3) c by simp
  show "sockPaths (newMachineEvent env status event s) = []" using t(5) assms by simp
  show "dials (trace (newMachineEvent env status event s)) = dials (trace s)"
    using t(1) d by simp
  show "walks (trace (newMachineEvent env status event s)) = walks (trace s)"
    using t(1) t(4) by simp
  show "dials (effects_since s (newMachineEvent env status event s)) = []"
    using effects_since_append [OF t(1)] d by simp
qed

lemma onceDo_no_paths:
  assumes "sockPaths s = []"
  shows "trace (onceDo (openSockets env) s) = trace s"
    and "sockets (onceDo (openSockets env) s) = sockets s"
  using assms by (simp_all add: onceDo_def openSockets_def)

lemma closeMachineEvents_keeps:
  shows "sockets (snd (closeMachineEvents env s)) = sockets s"
    and "sockPaths (snd (closeMachineEvents env s)) = sockPaths s"
    and "dials (trace (snd (closeMachineEvents env s))) = dials (trace s)"
    and "walks (trace (snd (closeMachineEvents env s))) = walks (trace s)"
    and "closes (effects_since s (snd (closeMachineEvents env s))) = sockets s"
proof -
  from closeMachineEvents_effects [of env s] obtain t where
    t: "trace (snd (closeMachineEvents env s)) = trace s @ t" "closes t = sockets s"
    "dials t = []" "walks t = []"
    "sockets (snd (closeMachineEvents env s)) = sockets s"
    "sockPaths (snd (closeMachineEvents env s)) = sockPaths s"
    by blast
  show "sockets (snd (closeMachineEvents env s)) = sockets s" by (rule t(5))
  show "sockPaths (snd (closeMachineEvents env s)) = sockPaths s" by (rule t(6))
  show "dials (trace (snd (closeMachineEvents env s))) = dials (trace s)" using t(1,3) by simp
  show "walks (trace (snd (closeMachineEvents env s))) = walks (trace s)" using t(1,4) by simp
  show "closes (effects_since s (snd (closeMachineEvents env s))) = sockets s"
    using effects_since_append [OF t(1)] t(2) by simp
qed

lemma initMachineEvents_keeps:
  shows "sockPaths (snd (initMachineEvents env s)) = sockPaths s"
    and "sockets (snd (initMachineEvents env s)) =
           sockets s @ dialed_conns (effects_since s (snd (initMachineEvents env s)))"
    and "dials (effects_since s (snd (initMachineEvents env s))) =
           (case fst (resolveEventSock env) of Inl err \<Rightarrow> [] | Inr ps \<Rightarrow> ps)"
    and "trace (snd (initMachineEvents env s)) =
           trace s @ effects_since s (snd (initMachineEvents env s))"
    and "walks (effects_since s (snd (initMachineEvents env s))) =
           walks (snd (resolveEventSock env))"
    and "writes (effects_since s (snd (initMachineEvents env s))) = []"
proof -
  from initMachineEvents_effects [of env s] obtain t where
    t: "trace (snd (initMachineEvents env s)) = trace s @ t"
    "dials t = (case fst (resolveEventSock env) of Inl err \<Rightarrow> [] | Inr ps \<Rightarrow> ps)"
    "sockets (snd (initMachineEvents env s)) = sockets s @ dialed_conns t"
    "walks t = walks (snd (resolveEventSock env))" "writes t = []"
    "sockPaths (snd (initMachineEvents env s)) = sockPaths s"
    by blast
  from t(1) have e: "effects_since s (snd (initMachineEvents env s)) = t"
    by (rule effects_since_append)
  show "sockPaths (snd (initMachineEvents env s)) = sockPaths s" by (rule t(6))
  show "sockets (snd (initMachineEvents env s)) =
           sockets s @ dialed_conns (effects_since s (snd (initMachineEvents env s)))"
    using t(3) e by simp
  show "dials (effects_since s (snd (initMachineEvents env s))) =
           (case fst (resolveEventSock env) of Inl err \<Rightarrow> [] | Inr ps \<Rightarrow> ps)"
    using t(2) e by simp
  show "trace (snd (initMachineEvents env s)) =
           trace s @ effects_since s (snd (initMachineEvents env s))"
    using t(1) e by simp
  show "walks (effects_since s (snd (initMachineEvents env s))) =
           walks (snd (resolveEventSock env))"
    using t(4) e by simp
  show "writes (effects_since s (snd (initMachineEvents env s))) = []"
    using t(5) e by simp
qed

lemma exec_sockets:
  "sockPaths s = [] \<Longrightarrow>
     sockPaths (exec env calls s) = []
     \<and> sockets (exec env calls s) = sockets s @ prehook_conns env calls s"
proof (induction calls arbitrary: s)
  case Nil
  then show ?case by simp
next
  case (Cons c cs)
  show ?case
  proof (cases c)
    case PreHook
    let ?s = "snd (initMachineEvents env s)"
    have "sockPaths ?s = []" using Cons.prems by (simp add: initMachineEvents_keeps(1))
    from Cons.IH [OF this] show ?thesis
      using PreHook initMachineEvents_keeps(2) [of env s] by simp
  next
    case (Publish status event)
    let ?s = "newMachineEvent env status event s"
    have "sockPaths ?s = []" using Cons.prems by (rule newMachineEvent_no_paths(2))
    from Cons.IH [OF this] show ?thesis
      using Publish newMachineEvent_no_paths(1) [OF Cons.prems, of env status event] by simp
  next
    case PostHook
    let ?s = "snd (closeMachineEvents env s)"
    have "sockPaths ?s = []" using Cons.prems by (simp add: closeMachineEvents_keeps(2))
    from Cons.IH [OF this] show ?thesis
      using PostHook closeMachineEvents_keeps(1) [of env s] by simp
  qed
qed

lemma exec_no_prehook:
  "PreHook \<notin> set calls \<Longrightarrow> sockPaths s = [] \<Longrightarrow>
     dials (trace (exec env calls s)) = dials (trace s)
     \<and> walks (trace (exec env calls s)) = walks (trace s)"
proof (induction calls arbitrary: s)
  case Nil
  show ?case by simp
next
  case (Cons c cs)
  from Cons.prems(1) have cs: "PreHook \<notin> set cs" and c: "c \<noteq> PreHook" by auto
  show ?case
  proof (cases c)
    case PreHook
    with c show ?thesis by simp
  next
    case (Publish status event)
    let ?s = "newMachineEvent env status event s"
    have "sockPaths ?s = []" using Cons.prems(2) by (rule newMachineEvent_no_paths(2))
    from Cons.IH [OF cs this] show ?thesis
      using Publish newMachineEvent_no_paths(3,4) [OF Cons.prems(2), of env status event]
      by simp
  next
    case PostHook
    let ?s = "snd (closeMachineEvents env s)"
    have "sockPaths ?s = []" using Cons.prems(2) by (simp add: closeMachineEvents_keeps(2))
    from Cons.IH [OF cs this] show ?thesis
      using PostHook closeMachineEvents_keeps(3,4) [of env s] by simp
  qed
qed

lemma exec_one_prehook:
  "count_list calls PreHook \<le> 1 \<Longrightarrow> sockPaths s = [] \<Longrightarrow>
     \<exists>d w. dials (trace (exec env calls s)) = dials (trace s) @ d
       \<and> (d = [] \<or> fst (resolveEventSock env) = Inr d)
       \<and> walks (trace (exec env calls s)) = walks (trace s) @ w \<and> length w \<le> 1"
proof (induction calls arbitrary: s)
  case Nil
  show ?case by simp
next
  case (Cons c cs)
  show ?case
  proof (cases c)
    case PreHook
    let ?s = "snd (initMachineEvents env s)"
    let ?t = "effects_since s ?s"
    from Cons.prems(1) PreHook have "count_list cs PreHook = 0" by simp
    then have cs: "PreHook \<notin> set cs" by (simp add: count_list_0_iff)
    have p: "sockPaths ?s = []" using Cons.prems(2) by (simp add: initMachineEvents_keeps(1))
    have "dials (trace ?s) = dials (trace s) @ dials ?t"
      and "walks (trace ?s) = walks (trace s) @ walks ?t"
      using arg_cong [OF initMachineEvents_keeps(4) [of env s], of dials]
        arg_cong [OF initMachineEvents_keeps(4) [of env s], of walks] by simp_all
    with exec_no_prehook [OF cs p, of env]
    have "dials (trace (exec env (c # cs) s)) = dials (trace s) @ dials ?t"
      and "walks (trace (exec env (c # cs) s)) = walks (trace s) @ walks ?t"
      using PreHook by simp_all
    moreover have "dials ?t = [] \<or> fst (resolveEventSock env) = Inr (dials ?t)"
      by (cases "fst (resolveEventSock env)") (simp_all add: initMachineEvents_keeps(3))
    moreover have "length (walks ?t) \<le> 1"
      using resolveEventSock_effects [of env] by (simp add: initMachineEvents_keeps(5))
    ultimately show ?thesis by blast
  next
    case (Publish status event)
    let ?s = "newMachineEvent env status event s"
    from Cons.prems(1) Publish have n: "count_list cs PreHook \<le> 1" by simp
    have "sockPaths ?s = []" using Cons.prems(2) by (rule newMachineEvent_no_paths(2))
    from Cons.IH [OF n this] show ?thesis
      using Publish newMachineEvent_no_paths(3,4) [OF Cons.prems(2), of env status event]
      by simp
  next
    case PostHook
    let ?s = "snd (closeMachineEvents env s)"
    from Cons.prems(1) PostHook have n: "count_list cs PreHook \<le> 1" by simp
    have "sockPaths ?s = []" using Cons.prems(2) by (simp add: closeMachineEvents_keeps(2))
    from Cons.IH [OF n this] show ?thesis
      using PostHook closeMachineEvents_keeps(3,4) [of env s] by simp
  qed
qed

lemma publishAll_no_paths:
  "sockPaths s = [] \<Longrightarrow>
     sockPaths (publishAll env body s) = [] \<and> sockets (publishAll env body s) = sockets s
     \<and> dials (trace (publishAll env body s)) = dials (trace s)"
proof (induction body arbitrary: s)
  case Nil
  then show ?case by simp
next
  case (Cons r rest)
  obtain status event where r: "r = (status, event)" by (cases r)
  let ?s = "newMachineEvent env status event s"
  have "sockPaths ?s = []" using Cons.prems by (rule newMachineEvent_no_paths(2))
  from Cons.IH [OF this] show ?case
    using r newMachineEvent_no_paths(1,3) [OF Cons.prems, of env status event] by simp
qed

subsection \<open>The command run and the payloads\<close>

lemma dialed_conns_le_dials: "length (dialed_conns t) \<le> length (dials t)"
proof (induction t)
  case Nil
  show ?case by simp
next
  case (Cons e t)
  show ?case
  proof (cases e)
    case (E_Dial path r)
    with Cons show ?thesis by (cases r) simp_all
  qed (use Cons in simp_all)
qed

lemma runMachineCmd_aborts:
  "fst (initMachineEvents env s) = Some err \<Longrightarrow>
     runMachineCmd env body bodyErr s = (Some err, snd (initMachineEvents env s))"
  by (cases "initMachineEvents env s") (simp add: runMachineCmd_def)

lemma runMachineCmd_runs:
  "fst (initMachineEvents env s) = None \<Longrightarrow>
     runMachineCmd env body bodyErr s =
       (bodyErr, snd (closeMachineEvents env (publishAll env body (snd (initMachineEvents env s)))))"
  by (cases "initMachineEvents env s")
     (simp add: runMachineCmd_def closeMachineEvents_def Let_def split: option.splits)

lemma resolveEventSock_walk_failure:
  assumes "lookupEnv env ''PODMAN_MACHINE_EVENTS_SOCK'' = None"
    and "getRuntimeDir env = Inr xdg"
    and "first_failure (walkVisits env (filepathJoin env xdg ''podman'')) = Some err"
  shows "fst (resolveEventSock env) = (if isErrNotExist err then Inr [] else Inl err)"
proof -
  let ?root = "filepathJoin env xdg ''podman''"
  obtain r sp t where W: "WalkDir (walkVisits env ?root) ([], [E_Walk ?root]) = (r, sp, t)"
    by (cases "WalkDir (walkVisits env ?root) ([], [E_Walk ?root])") auto
  from WalkDir_error [of "walkVisits env ?root" "([], [E_Walk ?root])"] W assms(3)
  have "r = Some err" by simp
  with W assms(1,2) show ?thesis by (simp add: resolveEventSock_def Let_def)
qed

lemma newMachineEvent_writes:
  "writes (effects_since s (newMachineEvent env status event s)) =
     (case jsonMarshal env
             (stamp status (timeNow env (trace (onceDo (openSockets env) s))) event) of
        Inl err \<Rightarrow> []
      | Inr p \<Rightarrow> map (\<lambda>c. (c, p)) (sockets (newMachineEvent env status event s)))"
proof -
  from newMachineEvent_effects [of env status event s] obtain t where
    t: "trace (newMachineEvent env status event s) = trace s @ t"
    "writes t =
       (case jsonMarshal env
               (stamp status (timeNow env (trace (onceDo (openSockets env) s))) event) of
          Inl err \<Rightarrow> []
        | Inr p \<Rightarrow> map (\<lambda>c. (c, p)) (sockets (newMachineEvent env status event s)))"
    by blast
  from effects_since_append [OF t(1)] t(2) show ?thesis by simp
qed

section \<open>The claims\<close>

text \<open>
  C1 (as stated: the pre-hook dials nothing, and the first publish request dials every
  resolved endpoint). With the override variable naming a socket, the pre-hook has dialed it
  when it returns, and the first publish request after it dials nothing.
\<close>

theorem prehook_dials_counterexample:
  "dials (trace (snd (initMachineEvents override_env init_state))) = [''/tmp/test.sock'']
     \<and> dials (effects_since (snd (initMachineEvents override_env init_state))
          (newMachineEvent override_env ''running'' example_event
             (snd (initMachineEvents override_env init_state)))) = []"
  by code_simp

text \<open>
  C1 (amended). The pre-hook resolves the endpoints and dials every one of them itself, once
  each and in the order of resolution, and does not assign the package-level path list. A
  publish request dials only in the body that runs once, on the first publish request, and
  what that body dials is the package-level path list.
\<close>

theorem prehook_dials_publish_dials_sockPaths:
  "dials (effects_since s (snd (initMachineEvents env s))) =
       (case fst (resolveEventSock env) of Inl err \<Rightarrow> [] | Inr paths \<Rightarrow> paths)
     \<and> sockPaths (snd (initMachineEvents env s)) = sockPaths s
     \<and> dials (effects_since s (newMachineEvent env status event s)) =
         (if openEventSock s then [] else sockPaths s)
     \<and> openEventSock (newMachineEvent env status event s)"
proof -
  from newMachineEvent_effects [of env status event s] obtain t where
    t: "trace (newMachineEvent env status event s) = trace s @ t"
    "dials t = (if openEventSock s then [] else sockPaths s)"
    "openEventSock (newMachineEvent env status event s)"
    by blast
  from effects_since_append [OF t(1)] t(2,3)
    initMachineEvents_keeps(1,3) [where env = env and s = s]
  show ?thesis by simp
qed

theorem prehook_dials_publish_dials_sockPaths_witness:
  "dials (effects_since init_state (snd (initMachineEvents scan_env init_state))) =
       [''/run/user/1000/podman/machine_events.1.sock'',
        ''/run/user/1000/podman/xmachine_events.sockx'']
     \<and> sockPaths (snd (initMachineEvents scan_env init_state)) = []
     \<and> dials (effects_since (init_state\<lparr>sockPaths := [''/tmp/a.sock'']\<rparr>)
          (newMachineEvent scan_env ''running'' example_event
             (init_state\<lparr>sockPaths := [''/tmp/a.sock'']\<rparr>))) = [''/tmp/a.sock'']
     \<and> openEventSock (newMachineEvent scan_env ''running'' example_event
          (init_state\<lparr>sockPaths := [''/tmp/a.sock'']\<rparr>))"
proof -
  have r: "fst (resolveEventSock scan_env) =
       Inr [''/run/user/1000/podman/machine_events.1.sock'',
            ''/run/user/1000/podman/xmachine_events.sockx'']"
    by code_simp
  have st: "\<not> openEventSock (init_state\<lparr>sockPaths := [''/tmp/a.sock'']\<rparr>)"
    "sockPaths init_state = []"
    "sockPaths (init_state\<lparr>sockPaths := [''/tmp/a.sock'']\<rparr>) = [''/tmp/a.sock'']"
    by (simp_all add: init_state_def)
  from prehook_dials_publish_dials_sockPaths [of init_state scan_env]
    prehook_dials_publish_dials_sockPaths
      [of "init_state\<lparr>sockPaths := [''/tmp/a.sock'']\<rparr>" scan_env "''running''" example_event]
    r st
  show ?thesis by simp
qed

text \<open>
  C2. No entry point assigns the package-level \<open>sockPaths\<close>: each of the three leaves it as
  it was. So after any sequence of calls from process start it is empty, a publish request
  dials nothing and leaves \<open>sockets\<close> as it was, and \<open>sockets\<close> holds exactly the
  connections that the pre-hook calls opened.
\<close>

theorem publish_never_dials:
  "sockPaths (snd (initMachineEvents env s)) = sockPaths s
     \<and> sockPaths (newMachineEvent env status event s) = sockPaths s
     \<and> sockPaths (snd (closeMachineEvents env s)) = sockPaths s
     \<and> sockPaths (exec env calls init_state) = []
     \<and> dials (effects_since (exec env calls init_state)
          (newMachineEvent env status event (exec env calls init_state))) = []
     \<and> sockets (newMachineEvent env status event (exec env calls init_state)) =
         sockets (exec env calls init_state)
     \<and> sockets (exec env calls init_state) = prehook_conns env calls init_state"
proof -
  have i: "sockPaths init_state = []" "sockets init_state = []" by (simp_all add: init_state_def)
  from exec_sockets [OF i(1), of env calls]
  have p: "sockPaths (exec env calls init_state) = []"
    and c: "sockets (exec env calls init_state) = prehook_conns env calls init_state"
    using i(2) by simp_all
  from newMachineEvent_effects [of env status event s]
  have "sockPaths (newMachineEvent env status event s) = sockPaths s" by blast
  with p c newMachineEvent_no_paths(1,5) [OF p, of env status event]
    initMachineEvents_keeps(1) [of env s] closeMachineEvents_keeps(2) [of env s]
  show ?thesis by simp
qed

theorem publish_never_dials_witness:
  "sockPaths (exec scan_env
       [Publish ''starting'' example_event, PreHook, PostHook, PreHook] init_state) = []
     \<and> dials (effects_since
          (exec scan_env
             [Publish ''starting'' example_event, PreHook, PostHook, PreHook] init_state)
          (newMachineEvent scan_env ''running'' example_event
             (exec scan_env
                [Publish ''starting'' example_event, PreHook, PostHook, PreHook] init_state))) = []
     \<and> sockets (newMachineEvent scan_env ''running'' example_event
          (exec scan_env
             [Publish ''starting'' example_event, PreHook, PostHook, PreHook] init_state)) = [4, 14]
     \<and> prehook_conns scan_env
          [Publish ''starting'' example_event, PreHook, PostHook, PreHook] init_state = [4, 14]"
proof -
  have "sockets (exec scan_env
       [Publish ''starting'' example_event, PreHook, PostHook, PreHook] init_state) = [4, 14]"
    by code_simp
  with publish_never_dials
    [of scan_env init_state "''running''" example_event
        "[Publish ''starting'' example_event, PreHook, PostHook, PreHook]"]
  show ?thesis by simp
qed

text \<open>
  C3 (as stated: a name that holds \<open>machine_events\<close> and \<open>.sock\<close> only as an inner part
  is excluded). A socket named \<open>xmachine_events.sockx\<close>, whose name has neither the prefix
  nor the suffix, is included.
\<close>

theorem interior_match_counterexample:
  "fn (Entry ''/run/user/1000/podman/xmachine_events.sockx''
         \<lparr>Name = ''xmachine_events.sockx'', IsDir = False, FileType = ModeSocket\<rparr>) ([], []) =
     (None, [''/run/user/1000/podman/xmachine_events.sockx''],
      [E_Log DebugLevel ''Machine events will be published on: %q''])
   \<and> \<not> prefix ''machine_events'' ''xmachine_events.sockx''
   \<and> \<not> suffix ''.sock'' ''xmachine_events.sockx''"
  by code_simp

text \<open>
  C3 (amended). During the walk an entry is included as an endpoint if and only if it is not
  a directory, its file type is socket, and its name contains \<open>machine_events\<close> followed,
  after any characters other than newline, by \<open>.sock\<close>, anywhere in the name: the pattern
  is searched for, not anchored. Every other entry leaves the list as it was.
\<close>

theorem fn_includes_iff:
  "fn (Entry path info) (sp, t) =
     (if \<not> IsDir info \<and> FileType info = ModeSocket
         \<and> (\<exists>a m b. Name info = a @ ''machine_events'' @ m @ ''.sock'' @ b \<and> newline \<notin> set m)
      then (None, sp @ [path], t @ [E_Log DebugLevel ''Machine events will be published on: %q''])
      else (None, sp, t))"
  using MatchString_iff [of "Name info"] by simp

theorem fn_includes_iff_witness:
  "fn (Entry ''/run/user/1000/podman/machine_events.1.sock'' (socket_entry ''machine_events.1.sock''))
      ([''/a''], []) =
     (None, [''/a'', ''/run/user/1000/podman/machine_events.1.sock''],
      [E_Log DebugLevel ''Machine events will be published on: %q''])
   \<and> fn (Entry ''/run/user/1000/podman/machine_events.sock''
        \<lparr>Name = ''machine_events.sock'', IsDir = False, FileType = ModeRegular\<rparr>) ([''/a''], []) =
     (None, [''/a''], [])"
proof -
  have "Name (socket_entry ''machine_events.1.sock'') = [] @ ''machine_events'' @ ''.1'' @ ''.sock'' @ []
     \<and> newline \<notin> set ''.1''"
    by (simp add: socket_entry_def newline_def)
  then have "\<exists>a m b. Name (socket_entry ''machine_events.1.sock'') = a @ ''machine_events'' @ m @ ''.sock'' @ b
     \<and> newline \<notin> set m" by blast
  with fn_includes_iff [of "''/run/user/1000/podman/machine_events.1.sock''"
      "socket_entry ''machine_events.1.sock''" "[''/a'']" "[]"]
    fn_includes_iff [of "''/run/user/1000/podman/machine_events.sock''"
      "\<lparr>Name = ''machine_events.sock'', IsDir = False, FileType = ModeRegular\<rparr>" "[''/a'']" "[]"]
  show ?thesis by (simp add: socket_entry_def)
qed

text \<open>
  C4. In a process where the pre-hook runs at most once, and the walk presents no path
  twice, no endpoint is dialed more than once and the directory is scanned at most once,
  however many publish requests are made and wherever they and the post-hook fall.
\<close>

theorem no_endpoint_dialed_twice:
  assumes "count_list calls PreHook \<le> 1"
    and "\<And>root. distinct (entry_paths (walkVisits env root))"
  shows "distinct (dials (trace (exec env calls init_state)))
     \<and> length (walks (trace (exec env calls init_state))) \<le> 1"
proof -
  have i: "sockPaths init_state = []" "trace init_state = []" by (simp_all add: init_state_def)
  from exec_one_prehook [OF assms(1) i(1), of env] obtain d w where
    d: "dials (trace (exec env calls init_state)) = d"
    "d = [] \<or> fst (resolveEventSock env) = Inr d"
    and w: "walks (trace (exec env calls init_state)) = w" "length w \<le> 1"
    using i(2) by auto
  from d(2) have "distinct d"
  proof
    assume "d = []"
    then show ?thesis by simp
  next
    assume "fst (resolveEventSock env) = Inr d"
    with assms(2) show ?thesis by (rule resolveEventSock_distinct)
  qed
  with d(1) w show ?thesis by simp
qed

theorem no_endpoint_dialed_twice_witness:
  "count_list [PreHook, Publish ''starting'' example_event, Publish ''running'' example_event,
       PostHook] PreHook \<le> 1
   \<and> distinct (entry_paths example_visits)
   \<and> dials (trace (exec scan_env
        [PreHook, Publish ''starting'' example_event, Publish ''running'' example_event,
         PostHook] init_state)) =
       [''/run/user/1000/podman/machine_events.1.sock'',
        ''/run/user/1000/podman/xmachine_events.sockx'']
   \<and> distinct (dials (trace (exec scan_env
        [PreHook, Publish ''starting'' example_event, Publish ''running'' example_event,
         PostHook] init_state)))
   \<and> length (walks (trace (exec scan_env
        [PreHook, Publish ''starting'' example_event, Publish ''running'' example_event,
         PostHook] init_state))) \<le> 1"
proof -
  have c: "count_list [PreHook, Publish ''starting'' example_event,
       Publish ''running'' example_event, PostHook] PreHook \<le> 1"
    by simp
  have v: "distinct (entry_paths example_visits)"
    by (simp add: example_visits_def)
  then have w: "\<And>root. distinct (entry_paths (walkVisits scan_env root))"
    by (simp add: scan_env_def example_env_def)
  have e: "dials (trace (exec scan_env
        [PreHook, Publish ''starting'' example_event, Publish ''running'' example_event,
         PostHook] init_state)) =
       [''/run/user/1000/podman/machine_events.1.sock'',
        ''/run/user/1000/podman/xmachine_events.sockx'']"
    by code_simp
  from c v e no_endpoint_dialed_twice [OF c w] show ?thesis by simp
qed

text \<open>
  C5. When resolution gives the paths \<open>paths\<close>, the pre-hook at process start dials each
  of them once, in order; the live connections are exactly those that the successful dials
  opened, so they are no more than the paths; and a publish request made after it (and after
  any other publish requests), when the event serializes to \<open>p\<close>, attempts exactly one
  write of \<open>p\<close> per live connection, in order.
\<close>

theorem live_connections_and_payloads:
  assumes "fst (resolveEventSock env) = Inr paths"
    and "s1 = snd (initMachineEvents env init_state)"
    and "s2 = publishAll env body s1"
    and "jsonMarshal env (stamp status (timeNow env (trace s2)) event) = Inr p"
  shows "dials (trace s1) = paths
     \<and> sockets s1 = dialed_conns (trace s1)
     \<and> length (sockets s1) \<le> length paths
     \<and> writes (effects_since s2 (newMachineEvent env status event s2)) =
         map (\<lambda>c. (c, p)) (sockets s1)
     \<and> length (writes (effects_since s2 (newMachineEvent env status event s2))) =
         length (dialed_conns (trace s1))
     \<and> dials (trace (newMachineEvent env status event s2)) = paths"
proof -
  have i: "sockPaths init_state = []" "trace init_state = []" "sockets init_state = []"
    by (simp_all add: init_state_def)
  let ?t = "effects_since init_state s1"
  have t: "trace s1 = ?t"
    using initMachineEvents_keeps(4) [of env init_state] assms(2) i(2) by simp
  have d: "dials (trace s1) = paths"
    using initMachineEvents_keeps(3) [where env = env and s = init_state] assms(1,2) t by simp
  have c: "sockets s1 = dialed_conns (trace s1)"
    using initMachineEvents_keeps(2) [of env init_state] assms(2) i(3) t by simp
  have "length (dialed_conns (trace s1)) \<le> length (dials (trace s1))"
    by (rule dialed_conns_le_dials)
  with c d have l: "length (sockets s1) \<le> length paths" by simp
  have p1: "sockPaths s1 = []"
    using initMachineEvents_keeps(1) [of env init_state] assms(2) i(1) by simp
  from publishAll_no_paths [OF p1, of env body] assms(3)
  have p2: "sockPaths s2 = []" and k2: "sockets s2 = sockets s1"
    and d2: "dials (trace s2) = dials (trace s1)" by simp_all
  have d3: "dials (trace (newMachineEvent env status event s2)) = paths"
    using newMachineEvent_no_paths(3) [OF p2, of env status event] d2 d by simp
  from newMachineEvent_effects [of env status event s2] obtain u where
    u: "trace (newMachineEvent env status event s2) = trace s2 @ u"
    "writes u =
       (case jsonMarshal env
               (stamp status (timeNow env (trace (onceDo (openSockets env) s2))) event) of
          Inl err \<Rightarrow> []
        | Inr p \<Rightarrow> map (\<lambda>c. (c, p)) (sockets (newMachineEvent env status event s2)))"
    by blast
  have "writes (effects_since s2 (newMachineEvent env status event s2)) =
         map (\<lambda>c. (c, p)) (sockets s1)"
    using effects_since_append [OF u(1)] u(2) assms(4) onceDo_no_paths(1) [OF p2, of env]
      newMachineEvent_no_paths(1) [OF p2, of env status event] k2 by simp
  with d c l d3 show ?thesis by simp
qed

theorem live_connections_and_payloads_witness:
  "fst (resolveEventSock scan_env) =
       Inr [''/run/user/1000/podman/machine_events.1.sock'',
            ''/run/user/1000/podman/xmachine_events.sockx'']
   \<and> jsonMarshal scan_env
         (stamp ''running''
            (timeNow scan_env
               (trace (publishAll scan_env [(''starting'', example_event)]
                  (snd (initMachineEvents scan_env init_state)))))
            example_event) = Inr ''machine running''
   \<and> dials (trace (snd (initMachineEvents scan_env init_state))) =
       [''/run/user/1000/podman/machine_events.1.sock'',
        ''/run/user/1000/podman/xmachine_events.sockx'']
   \<and> dialed_conns (trace (snd (initMachineEvents scan_env init_state))) = [4]
   \<and> sockets (snd (initMachineEvents scan_env init_state)) = [4]
   \<and> writes (effects_since
          (publishAll scan_env [(''starting'', example_event)]
             (snd (initMachineEvents scan_env init_state)))
          (newMachineEvent scan_env ''running'' example_event
             (publishAll scan_env [(''starting'', example_event)]
                (snd (initMachineEvents scan_env init_state))))) = [(4, ''machine running'')]"
proof -
  let ?s1 = "snd (initMachineEvents scan_env init_state)"
  let ?s2 = "publishAll scan_env [(''starting'', example_event)] ?s1"
  have r: "fst (resolveEventSock scan_env) =
       Inr [''/run/user/1000/podman/machine_events.1.sock'',
            ''/run/user/1000/podman/xmachine_events.sockx'']"
    by code_simp
  have m: "jsonMarshal scan_env (stamp ''running'' (timeNow scan_env (trace ?s2)) example_event)
       = Inr ''machine running''"
    by code_simp
  have k: "dialed_conns (trace ?s1) = [4]" by code_simp
  from live_connections_and_payloads [OF r refl refl m] r m k show ?thesis by simp
qed

text \<open>
  C6 (as stated: every failure of the walk other than the missing target subdirectory is
  returned as an error). The target subdirectory exists and the walk has found a socket in
  it when a directory below it turns out to be gone: the walk stops on that does-not-exist
  error, and the resolver returns the empty sequence and no error, so the pre-hook returns
  no error and dials nothing.
\<close>

theorem nested_not_exist_counterexample:
  "entry_paths (walkVisits race_env (filepathJoin race_env ''/run/user/1000'' ''podman'')) =
     [''/run/user/1000/podman'', ''/run/user/1000/podman/machine_events.1.sock'',
      ''/run/user/1000/podman/gone'']
   \<and> WalkDir (walkVisits race_env (filepathJoin race_env ''/run/user/1000'' ''podman''))
        ([], []) =
       (Some (PathError ''/run/user/1000/podman/gone'' ENOENT),
        [''/run/user/1000/podman/machine_events.1.sock''],
        [E_Log DebugLevel ''Machine events will be published on: %q''])
   \<and> fst (resolveEventSock race_env) = Inr []
   \<and> fst (initMachineEvents race_env init_state) = None
   \<and> dials (trace (snd (initMachineEvents race_env init_state))) = []"
  by code_simp

text \<open>
  C6 (amended). Without the override: when the runtime directory cannot be determined, the
  resolver returns the empty sequence and no error; when the walk stops on a failure, the
  resolver returns the empty sequence and no error if the failure is a does-not-exist error,
  for whatever path it is reported (the missing target subdirectory, or an entry that went
  away during the walk), and returns the failure as its error if it is of any other kind.
  The pre-hook returns the resolver's error to its caller without dialing; the command is
  then aborted: the run returns that error and no event is written.
\<close>

theorem resolveEventSock_errors:
  "(lookupEnv env ''PODMAN_MACHINE_EVENTS_SOCK'' = None \<longrightarrow> getRuntimeDir env = Inl e \<longrightarrow>
      fst (resolveEventSock env) = Inr [])
   \<and> (lookupEnv env ''PODMAN_MACHINE_EVENTS_SOCK'' = None \<longrightarrow> getRuntimeDir env = Inr xdg \<longrightarrow>
        first_failure (walkVisits env (filepathJoin env xdg ''podman'')) = Some err \<longrightarrow>
        fst (resolveEventSock env) = (if isErrNotExist err then Inr [] else Inl err))
   \<and> (fst (resolveEventSock env) = Inl err' \<longrightarrow>
        fst (initMachineEvents env s) = Some err'
        \<and> sockets (snd (initMachineEvents env s)) = sockets s
        \<and> dials (effects_since s (snd (initMachineEvents env s))) = []
        \<and> runMachineCmd env body bodyErr s = (Some err', snd (initMachineEvents env s))
        \<and> writes (effects_since s (snd (runMachineCmd env body bodyErr s))) = [])"
proof (intro conjI impI)
  assume "lookupEnv env ''PODMAN_MACHINE_EVENTS_SOCK'' = None" "getRuntimeDir env = Inl e"
  then show "fst (resolveEventSock env) = Inr []" by (simp add: resolveEventSock_def)
next
  assume "lookupEnv env ''PODMAN_MACHINE_EVENTS_SOCK'' = None" "getRuntimeDir env = Inr xdg"
    "first_failure (walkVisits env (filepathJoin env xdg ''podman'')) = Some err"
  then show "fst (resolveEventSock env) = (if isErrNotExist err then Inr [] else Inl err)"
    by (rule resolveEventSock_walk_failure)
next
  assume r: "fst (resolveEventSock env) = Inl err'"
  then show i: "fst (initMachineEvents env s) = Some err'"
    by (simp add: initMachineEvents_result)
  from r show d: "dials (effects_since s (snd (initMachineEvents env s))) = []"
    by (simp add: initMachineEvents_keeps(3))
  then have "dialed_conns (effects_since s (snd (initMachineEvents env s))) = []"
    by (rule dialed_conns_Nil)
  then show "sockets (snd (initMachineEvents env s)) = sockets s"
    using initMachineEvents_keeps(2) [of env s] by simp
  from i show a: "runMachineCmd env body bodyErr s = (Some err', snd (initMachineEvents env s))"
    by (rule runMachineCmd_aborts)
  show "writes (effects_since s (snd (runMachineCmd env body bodyErr s))) = []"
    using a initMachineEvents_keeps(6) [of s env] by simp
qed

theorem resolveEventSock_errors_witness:
  "fst (resolveEventSock homeless_env) = Inr []
   \<and> fst (resolveEventSock missing_env) = Inr []
   \<and> fst (resolveEventSock denied_env) = Inl (PathError ''/run/user/1000/podman'' EACCES)
   \<and> runMachineCmd denied_env [(''running'', example_event)] None init_state =
       (Some (PathError ''/run/user/1000/podman'' EACCES),
        snd (initMachineEvents denied_env init_state))
   \<and> writes (effects_since init_state
        (snd (runMachineCmd denied_env [(''running'', example_event)] None init_state))) = []"
proof -
  have h: "lookupEnv homeless_env ''PODMAN_MACHINE_EVENTS_SOCK'' = None"
    "getRuntimeDir homeless_env = Inl (ErrorString ''no runtime dir'')"
    by (simp_all add: homeless_env_def example_env_def)
  have m: "lookupEnv missing_env ''PODMAN_MACHINE_EVENTS_SOCK'' = None"
    "getRuntimeDir missing_env = Inr ''/run/user/1000''"
    "first_failure (walkVisits missing_env (filepathJoin missing_env ''/run/user/1000'' ''podman''))
       = Some (PathError ''/run/user/1000/podman'' ENOENT)"
    by (simp_all add: missing_env_def example_env_def)
  have d: "lookupEnv denied_env ''PODMAN_MACHINE_EVENTS_SOCK'' = None"
    "getRuntimeDir denied_env = Inr ''/run/user/1000''"
    "first_failure (walkVisits denied_env (filepathJoin denied_env ''/run/user/1000'' ''podman''))
       = Some (PathError ''/run/user/1000/podman'' EACCES)"
    by (simp_all add: denied_env_def example_env_def)
  from resolveEventSock_errors [of homeless_env "ErrorString ''no runtime dir''"] h
  have 1: "fst (resolveEventSock homeless_env) = Inr []" by simp
  from resolveEventSock_errors
    [of missing_env _ "''/run/user/1000''" "PathError ''/run/user/1000/podman'' ENOENT"] m
  have 2: "fst (resolveEventSock missing_env) = Inr []" by simp
  from resolveEventSock_errors
    [of denied_env _ "''/run/user/1000''" "PathError ''/run/user/1000/podman'' EACCES"] d
  have 3: "fst (resolveEventSock denied_env) = Inl (PathError ''/run/user/1000/podman'' EACCES)"
    by simp
  from resolveEventSock_errors
    [of denied_env _ _ _ "PathError ''/run/user/1000/podman'' EACCES" init_state
        "[(''running'', example_event)]" None] 3
  have 4: "runMachineCmd denied_env [(''running'', example_event)] None init_state =
       (Some (PathError ''/run/user/1000/podman'' EACCES),
        snd (initMachineEvents denied_env init_state))"
    and 5: "writes (effects_since init_state
        (snd (runMachineCmd denied_env [(''running'', example_event)] None init_state))) = []"
    by blast+
  from 1 2 3 4 5 show ?thesis by simp
qed

text \<open>
  C7. A publish request returns nothing to its caller (the result of \<open>newMachineEvent\<close>
  is the package state alone). When the event serializes, one write is attempted on every
  live connection, in order, whatever the outcome of the writes before it, and there is one
  error log line per failed write; when it does not serialize, nothing is written and one
  error is logged. No connection is closed.
\<close>

theorem publish_contains_failures:
  "writes (effects_since s (newMachineEvent env status event s)) =
     (case jsonMarshal env
             (stamp status (timeNow env (trace (onceDo (openSockets env) s))) event) of
        Inl err \<Rightarrow> []
      | Inr p \<Rightarrow> map (\<lambda>c. (c, p)) (sockets (newMachineEvent env status event s)))
   \<and> length (error_logs (effects_since s (newMachineEvent env status event s))) =
     (case jsonMarshal env
             (stamp status (timeNow env (trace (onceDo (openSockets env) s))) event) of
        Inl err \<Rightarrow> 1
      | Inr p \<Rightarrow> length (failed_writes (effects_since s (newMachineEvent env status event s))))
   \<and> closes (effects_since s (newMachineEvent env status event s)) = []
   \<and> sockets (newMachineEvent env status event s) =
       sockets s @ dialed_conns (effects_since s (newMachineEvent env status event s))"
proof -
  from newMachineEvent_effects [of env status event s] obtain t where
    t: "trace (newMachineEvent env status event s) = trace s @ t"
    "sockets (newMachineEvent env status event s) = sockets s @ dialed_conns t"
    "length (error_logs t) =
         (case jsonMarshal env
                 (stamp status (timeNow env (trace (onceDo (openSockets env) s))) event) of
            Inl err \<Rightarrow> 1
          | Inr p \<Rightarrow> length (failed_writes t))"
     "closes t = []"
    by blast
  have e: "effects_since s (newMachineEvent env status event s) = t"
    using t(1) by (rule effects_since_append)
  show ?thesis
    unfolding e using t(2,3,4) newMachineEvent_writes [of s env status event, unfolded e]
    by simp
qed

theorem publish_contains_failures_witness:
  "writes (effects_since (snd (initMachineEvents flaky_env init_state))
      (newMachineEvent flaky_env ''running'' example_event
         (snd (initMachineEvents flaky_env init_state)))) =
     [(4, ''machine running''), (6, ''machine running'')]
   \<and> failed_writes (effects_since (snd (initMachineEvents flaky_env init_state))
      (newMachineEvent flaky_env ''running'' example_event
         (snd (initMachineEvents flaky_env init_state)))) = [4]
   \<and> length (error_logs (effects_since (snd (initMachineEvents flaky_env init_state))
      (newMachineEvent flaky_env ''running'' example_event
         (snd (initMachineEvents flaky_env init_state))))) = 1"
proof -
  let ?s = "snd (initMachineEvents flaky_env init_state)"
  have m: "jsonMarshal flaky_env
       (stamp ''running'' (timeNow flaky_env (trace (onceDo (openSockets flaky_env) ?s)))
          example_event) = Inr ''machine running''"
    by code_simp
  have k: "sockets (newMachineEvent flaky_env ''running'' example_event ?s) = [4, 6]"
    by code_simp
  have f: "failed_writes (effects_since ?s
      (newMachineEvent flaky_env ''running'' example_event ?s)) = [4]"
    by code_simp
  from publish_contains_failures [of ?s flaky_env "''running''" example_event] m k f
  show ?thesis by simp
qed

text \<open>
  C8. Before serialization the event's \<open>Status\<close> is the status argument, its \<open>Time\<close> is
  the clock reading taken in the publish call and its \<open>Type\<close> is the machine category; the
  other fields are the caller's. Whatever the caller placed in the three fields has no
  influence on the call, and what is written is the serialization of the stamped event.
\<close>

theorem publish_stamps_event:
  "Status (stamp status now event) = status
   \<and> Time (stamp status now event) = now
   \<and> Type (stamp status now event) = ''machine''
   \<and> event.more (stamp status now event) = event.more event
   \<and> newMachineEvent env status (event\<lparr>Status := a, Time := b, Type := c\<rparr>) s =
       newMachineEvent env status event s
   \<and> writes (effects_since s (newMachineEvent env status event s)) =
       (case jsonMarshal env
               (stamp status (timeNow env (trace (onceDo (openSockets env) s))) event) of
          Inl err \<Rightarrow> []
        | Inr p \<Rightarrow> map (\<lambda>c. (c, p)) (sockets (newMachineEvent env status event s)))"
proof -
  have "stamp status n (event\<lparr>Status := a, Time := b, Type := c\<rparr>) = stamp status n event"
    for n by (simp add: stamp_def)
  then have "newMachineEvent env status (event\<lparr>Status := a, Time := b, Type := c\<rparr>) s =
       newMachineEvent env status event s"
    by (simp add: newMachineEvent_def)
  with newMachineEvent_writes [of s env status event] show ?thesis
    by (simp add: stamp_def Machine_def)
qed

theorem publish_stamps_event_witness:
  "Status (stamp ''running'' 8 example_event) = ''running''
   \<and> Time (stamp ''running'' 8 example_event) = 8
   \<and> Type (stamp ''running'' 8 example_event) = ''machine''
   \<and> Status example_event = ''stale'' \<and> Type example_event = ''container''
   \<and> timeNow flaky_env (trace (snd (initMachineEvents flaky_env init_state))) = 8
   \<and> writes (effects_since (snd (initMachineEvents flaky_env init_state))
        (newMachineEvent flaky_env ''running'' example_event
           (snd (initMachineEvents flaky_env init_state)))) =
       [(4, ''machine running''), (6, ''machine running'')]"
proof -
  let ?s = "snd (initMachineEvents flaky_env init_state)"
  have n: "timeNow flaky_env (trace ?s) = 8" by code_simp
  have m: "jsonMarshal flaky_env
       (stamp ''running'' (timeNow flaky_env (trace (onceDo (openSockets flaky_env) ?s)))
          example_event) = Inr ''machine running''"
    by code_simp
  have k: "sockets (newMachineEvent flaky_env ''running'' example_event ?s) = [4, 6]"
    by code_simp
  have e: "Status example_event = ''stale''" "Type example_event = ''container''"
    by (simp_all add: example_event_def)
  from publish_stamps_event [of "''running''" 8 example_event flaky_env _ _ _ ?s] n m k e
  show ?thesis by simp
qed

text \<open>
  C9. Whenever the override environment variable is set to a path \<open>P\<close>, the resolver returns
  exactly the one-element sequence \<open>[P]\<close> and no error, whatever the file system holds; it
  has no effect at all, so it scans no directory.
\<close>

theorem resolveEventSock_override:
  assumes "lookupEnv env ''PODMAN_MACHINE_EVENTS_SOCK'' = Some P"
  shows "resolveEventSock env = (Inr [P], [])"
  using assms by (simp add: resolveEventSock_def)

theorem resolveEventSock_override_witness:
  "lookupEnv override_env ''PODMAN_MACHINE_EVENTS_SOCK'' = Some ''/tmp/test.sock''
     \<and> entry_paths (walkVisits override_env ''/run/user/1000/podman'') \<noteq> []
     \<and> resolveEventSock override_env = (Inr [''/tmp/test.sock''], [])"
proof -
  have h: "lookupEnv override_env ''PODMAN_MACHINE_EVENTS_SOCK'' = Some ''/tmp/test.sock''"
    by (simp add: override_env_def example_env_def)
  have v: "entry_paths (walkVisits override_env ''/run/user/1000/podman'') \<noteq> []"
    by (simp add: override_env_def example_env_def example_visits_def)
  from h v resolveEventSock_override [OF h] show ?thesis by simp
qed

text \<open>
  C10. The post-hook returns no error and attempts to close every live connection, in
  order, whatever the outcome of each close. In a command run whose pre-hook succeeded, the
  post-hook runs after the command body whether the body returned an error or not.
\<close>

theorem posthook_closes_all:
  "fst (closeMachineEvents env s) = None
   \<and> closes (effects_since s (snd (closeMachineEvents env s))) = sockets s
   \<and> (fst (initMachineEvents env s) = None \<longrightarrow>
        runMachineCmd env body bodyErr s =
          (bodyErr,
           snd (closeMachineEvents env (publishAll env body (snd (initMachineEvents env s))))))"
  using closeMachineEvents_keeps(5) [of s env] runMachineCmd_runs [of env s body bodyErr]
  by (simp add: closeMachineEvents_def)

theorem posthook_closes_all_witness:
  "fst (initMachineEvents flaky_env init_state) = None
   \<and> fst (runMachineCmd flaky_env [(''running'', example_event)]
        (Some (ErrorString ''start failed'')) init_state) = Some (ErrorString ''start failed'')
   \<and> sockets (publishAll flaky_env [(''running'', example_event)]
        (snd (initMachineEvents flaky_env init_state))) = [4, 6]
   \<and> connClose flaky_env [] 4 = Some (PathError ''close'' EBADF)
   \<and> closes (trace (snd (runMachineCmd flaky_env [(''running'', example_event)]
        (Some (ErrorString ''start failed'')) init_state))) = [4, 6]"
proof -
  let ?s = "publishAll flaky_env [(''running'', example_event)]
        (snd (initMachineEvents flaky_env init_state))"
  have i: "fst (initMachineEvents flaky_env init_state) = None" by code_simp
  have k: "sockets ?s = [4, 6]" by code_simp
  have b: "connClose flaky_env [] 4 = Some (PathError ''close'' EBADF)"
    by (simp add: flaky_env_def example_env_def)
  have c: "closes (trace (snd (closeMachineEvents flaky_env ?s))) = [4, 6]" by code_simp
  from posthook_closes_all [of flaky_env init_state "[(''running'', example_event)]"
      "Some (ErrorString ''start failed'')"] i k b c
  show ?thesis by simp
qed

end
